theory Spec2Isabelle
  imports Complex_Main "HOL-Library.Log_Nat"
begin

section \<open>Common conventions\<close>

text \<open>
  The three components of the repository (\<^verbatim>\<open>CumSumFilter\<close>, \<^verbatim>\<open>ETFTrick\<close>,
  \<^verbatim>\<open>TimeSeriesEmbargoCV\<close>) are embedded as HOL functions. Floating-point numbers are
  modelled by exact reals (except in the one division of two integers, see
  \<open>true_div\<close>), Python integers by \<open>int\<close>, positions produced by
  \<^verbatim>\<open>enumerate\<close> by \<open>nat\<close>. An attribute that may be absent from an object
  (\<^verbatim>\<open>hasattr\<close>) is an \<open>option\<close> field of the object's record.

  Every \<^verbatim>\<open>raise\<close> of the source is a value of \<open>py_error\<close>. \<open>NotFinite\<close> is
  not a Python exception: it marks the runs in which numpy divides by zero and stores
  \<^verbatim>\<open>inf\<close>/\<^verbatim>\<open>nan\<close>, values that exact reals do not have.
\<close>

datatype py_error =
  ValueError | KeyError | ZeroDivisionError | IndexError | AttributeError | OverflowError
  | NotFinite

section \<open>CumSumFilter\<close>

text \<open>
  The accepted inputs of \<^verbatim>\<open>CumSumFilter.__init__\<close>: a numpy array (flattened by
  \<^verbatim>\<open>ravel\<close>), a Series with its index, a DataFrame with its index, its number of
  columns and its values in row-major order, or an object of any other type.
\<close>

datatype 'l log_returns =
    LrNdarray "real list"
  | LrSeries "'l list" "real list"
  | LrDataFrame "'l list" nat "real list"
  | LrOther

record 'l CumSumFilter =
  index_attr :: "'l list option"
  data_attr :: "real list"
  h_attr :: real
  events_attr :: "nat list"

definition CumSumFilter_init :: "'l log_returns \<Rightarrow> real \<Rightarrow> py_error + 'l CumSumFilter" where
  "CumSumFilter_init log_returns h =
     (case log_returns of
        LrOther \<Rightarrow> Inl ValueError
      | LrSeries idx vals \<Rightarrow>
          Inr \<lparr>index_attr = Some idx, data_attr = vals, h_attr = h, events_attr = []\<rparr>
      | LrDataFrame idx ncols vals \<Rightarrow>
          if ncols \<noteq> 1 then Inl ValueError
          else Inr \<lparr>index_attr = Some idx, data_attr = vals, h_attr = h, events_attr = []\<rparr>
      | LrNdarray vals \<Rightarrow>
          Inr \<lparr>index_attr = None, data_attr = vals, h_attr = h, events_attr = []\<rparr>)"

text \<open>
  The loop of \<^verbatim>\<open>filter\<close>: \<open>i\<close> is the position of the head of the remaining
  values, \<open>s_plus\<close> and \<open>s_minus\<close> the two accumulators, \<open>events\<close> the list built so
  far. The two \<^verbatim>\<open>if\<close> statements run one after the other in every step, the second
  one on the accumulators as the first one left them.
\<close>

fun filter_loop :: "real \<Rightarrow> nat \<Rightarrow> real list \<Rightarrow> real \<Rightarrow> real \<Rightarrow> nat list \<Rightarrow> nat list" where
  "filter_loop h i [] s_plus s_minus events = events"
| "filter_loop h i (v # vs) s_plus s_minus events =
     (let s_plus1 = max 0 (s_plus + v);
          s_minus1 = min 0 (s_minus + v);
          (s_plus2, s_minus2, events2) =
            (if s_plus1 \<ge> h then (0, 0, events @ [i]) else (s_plus1, s_minus1, events));
          (s_plus3, s_minus3, events3) =
            (if \<bar>s_minus2\<bar> \<ge> h then (0, 0, events2 @ [i]) else (s_plus2, s_minus2, events2))
      in filter_loop h (Suc i) vs s_plus3 s_minus3 events3)"

definition filter_events :: "real list \<Rightarrow> real \<Rightarrow> nat list" where
  "filter_events data h = filter_loop h 0 data 0 0 []"

text \<open>\<^verbatim>\<open>filter\<close> stores the event list in the object and returns it.\<close>

definition filter_run :: "'l CumSumFilter \<Rightarrow> nat list \<times> 'l CumSumFilter" where
  "filter_run self =
     (let events = filter_events (data_attr self) (h_attr self)
      in (events, self\<lparr>events_attr := events\<rparr>))"

text \<open>
  The accessors. \<^verbatim>\<open>self._data[self._events]\<close> is numpy indexing by a list of
  positions: it raises \<^verbatim>\<open>IndexError\<close> on a position out of range and gives the
  empty array for the empty list.
\<close>

definition filtered_events :: "'l CumSumFilter \<Rightarrow> py_error + real list" where
  "filtered_events self =
     (if list_all (\<lambda>i. i < length (data_attr self)) (events_attr self)
      then Inr (map (\<lambda>i. data_attr self ! i) (events_attr self))
      else Inl IndexError)"

definition events_index :: "'l CumSumFilter \<Rightarrow> py_error + nat list" where
  "events_index self = Inr (events_attr self)"

definition index :: "'l CumSumFilter \<Rightarrow> py_error + 'l list" where
  "index self = (case index_attr self of None \<Rightarrow> Inl KeyError | Some idx \<Rightarrow> Inr idx)"

section \<open>TimeSeriesEmbargoCV\<close>

text \<open>
  A constructor argument is an \<^verbatim>\<open>int\<close> or an object of another type; the constructor
  raises \<^verbatim>\<open>ValueError\<close> on the latter and checks nothing else (neither the sign of
  \<^verbatim>\<open>cv\<close> nor that of \<^verbatim>\<open>embargo_size\<close>).
\<close>

datatype py_value = PyInt int | PyNotInt

record TimeSeriesEmbargoCV =
  n_splits :: int
  embargo_size :: int

definition TimeSeriesEmbargoCV_init :: "py_value \<Rightarrow> py_value \<Rightarrow> py_error + TimeSeriesEmbargoCV" where
  "TimeSeriesEmbargoCV_init cv embargo =
     (case cv of
        PyNotInt \<Rightarrow> Inl ValueError
      | PyInt c \<Rightarrow>
          (case embargo of
             PyNotInt \<Rightarrow> Inl ValueError
           | PyInt e \<Rightarrow> Inr \<lparr>n_splits = c, embargo_size = e\<rparr>))"

text \<open>
  \<^verbatim>\<open>a / b\<close> on two integers is the quotient rounded to the nearest double (binary64:
  a significand of 53 bits, exponent at least \<open>-1022\<close>, ties to the even significand);
  it raises \<^verbatim>\<open>ZeroDivisionError\<close> for \<open>b = 0\<close> and \<^verbatim>\<open>OverflowError\<close> when the
  rounded quotient is beyond the largest double. The double is held as the real number it
  denotes.

  \<open>round_half_even x\<close> is the integer nearest to \<open>x\<close>, the even one of two equally near.
  \<open>quot_exponent a b\<close> is, for positive \<open>a\<close> and \<open>b\<close>, the exponent \<open>e\<close> with
  \<open>2^e \<le> a / b < 2^(e + 1)\<close>, found from the bit lengths of \<open>a\<close> and \<open>b\<close>.
\<close>

definition round_half_even :: "real \<Rightarrow> int" where
  "round_half_even x =
     (let f = \<lfloor>x\<rfloor>
      in if x - of_int f < 1 / 2 then f
         else if 1 / 2 < x - of_int f then f + 1
         else if even f then f else f + 1)"

definition quot_exponent :: "int \<Rightarrow> int \<Rightarrow> int" where
  "quot_exponent a b =
     (let d = bitlen a - bitlen b
      in if real_of_int b * 2 powi d \<le> real_of_int a then d else d - 1)"

definition true_div :: "int \<Rightarrow> int \<Rightarrow> py_error + real" where
  "true_div a b =
     (if b = 0 then Inl ZeroDivisionError
      else if a = 0 then Inr 0
      else
        let e = max (quot_exponent \<bar>a\<bar> \<bar>b\<bar>) (- 1022);
            m = round_half_even (real_of_int \<bar>a\<bar> / real_of_int \<bar>b\<bar> * 2 powi (52 - e));
            r = real_of_int m * 2 powi (e - 52)
        in if 2 ^ 1024 \<le> r then Inl OverflowError
           else Inr (real_of_int (sgn a * sgn b) * r))"

text \<open>\<^verbatim>\<open>int(x)\<close> on a double truncates towards zero.\<close>

definition py_int :: "real \<Rightarrow> int" where
  "py_int x = (if 0 \<le> x then \<lfloor>x\<rfloor> else \<lceil>x\<rceil>)"

text \<open>\<^verbatim>\<open>int(a / b)\<close>, as in \<^verbatim>\<open>fold_size = int(n_samples / self.n_splits)\<close>.\<close>

definition int_true_div :: "int \<Rightarrow> int \<Rightarrow> py_error + int" where
  "int_true_div a b = (case true_div a b of Inl err \<Rightarrow> Inl err | Inr q \<Rightarrow> Inr (py_int q))"

text \<open>
  \<^verbatim>\<open>get_n_splits\<close> reads only \<^verbatim>\<open>len(X)\<close>, here \<open>len_X\<close>. Python's
  \<^verbatim>\<open>//\<close> is floor division, as \<open>div\<close> on \<open>int\<close>, and raises
  \<^verbatim>\<open>ZeroDivisionError\<close> on a zero divisor.
\<close>

definition get_n_splits :: "TimeSeriesEmbargoCV \<Rightarrow> nat \<Rightarrow> py_error + int" where
  "get_n_splits self len_X =
     (let n_samples = int len_X in
      case int_true_div n_samples (n_splits self) of
        Inl err \<Rightarrow> Inl err
      | Inr fold_size \<Rightarrow>
          if fold_size = 0 then Inl ZeroDivisionError
          else Inr (min (n_splits self) ((n_samples - embargo_size self) div fold_size)))"

text \<open>
  \<^verbatim>\<open>range(k)\<close> and \<^verbatim>\<open>np.arange(a, b)\<close> on integers; both are empty when the
  bound is not above the start.
\<close>

definition py_range :: "int \<Rightarrow> int list" where
  "py_range k = [0 .. k - 1]"

definition arange :: "int \<Rightarrow> int \<Rightarrow> int list" where
  "arange a b = [a .. b - 1]"

text \<open>
  The loop of \<^verbatim>\<open>split\<close> over the fold numbers still to come; \<^verbatim>\<open>break\<close> ends
  the generator. The folds are collected in the order they are yielded.
\<close>

fun split_loop :: "int \<Rightarrow> int \<Rightarrow> int \<Rightarrow> int list \<Rightarrow> (int list \<times> int list) list" where
  "split_loop n_samples fold_size embargo [] = []"
| "split_loop n_samples fold_size embargo (i # rest) =
     (let train_start_idx = i * fold_size;
          train_end_idx = i * fold_size + fold_size;
          test_start_idx = train_end_idx + embargo;
          test_end_idx = test_start_idx + fold_size - embargo
      in if test_end_idx > n_samples then []
         else (arange train_start_idx train_end_idx, arange test_start_idx test_end_idx)
                # split_loop n_samples fold_size embargo rest)"

definition split :: "TimeSeriesEmbargoCV \<Rightarrow> nat \<Rightarrow> py_error + (int list \<times> int list) list" where
  "split self len_X =
     (let n_samples = int len_X in
      case int_true_div n_samples (n_splits self) of
        Inl err \<Rightarrow> Inl err
      | Inr fold_size \<Rightarrow>
          (case get_n_splits self len_X of
             Inl err \<Rightarrow> Inl err
           | Inr n_actual_splits \<Rightarrow>
               Inr (split_loop n_samples fold_size (embargo_size self)
                      (py_range n_actual_splits))))"

text \<open>
  The vocabulary of the fold properties: a range is contiguous and increasing when each
  entry is its predecessor plus one; a list of ranges is non-overlapping when no position
  lies in two of them; a train range precedes a test range with a gap of \<open>e\<close> when more
  than \<open>e\<close> lies between any train position and any test position.
\<close>

fun contiguous :: "int list \<Rightarrow> bool" where
  "contiguous (x # y # zs) = (y = x + 1 \<and> contiguous (y # zs))"
| "contiguous _ = True"

definition non_overlapping :: "int list list \<Rightarrow> bool" where
  "non_overlapping rs = sorted_wrt (\<lambda>r s. set r \<inter> set s = {}) rs"

definition precedes_with_gap :: "int \<Rightarrow> int list \<Rightarrow> int list \<Rightarrow> bool" where
  "precedes_with_gap e train test = list_all (\<lambda>x. list_all (\<lambda>y. x + e < y) test) train"

definition all_ranges :: "(int list \<times> int list) list \<Rightarrow> int list list" where
  "all_ranges folds = concat (map (\<lambda>(train, test). [train, test]) folds)"

section \<open>ETFTrick\<close>

text \<open>
  A two-dimensional array of shape \<open>(T, N)\<close> is the list of its \<open>T\<close> rows together with
  \<open>N\<close> (\<^verbatim>\<open>shape[-1]\<close>, which an array with no row still has). Every row of an array
  has \<open>N\<close> entries: \<open>rectangular\<close>.
\<close>

record matrix =
  ncols :: nat
  rows :: "real list list"

definition rectangular :: "matrix \<Rightarrow> bool" where
  "rectangular m = list_all (\<lambda>r. length r = ncols m) (rows m)"

text \<open>
  The arguments of the constructor: prices are an array, a DataFrame (index, column names,
  values) or an object of another type; weights are an array, a Series (of which only the
  values are kept) or an object of another type.
\<close>

datatype ('i, 'c) prices_arg =
    PricesNdarray matrix
  | PricesDataFrame "'i list" "'c list" matrix
  | PricesOther

datatype weights_arg = WeightsNdarray "real list" | WeightsSeries "real list" | WeightsOther

datatype container = TyNdarray | TyDataFrame

datatype warning = WeightsNormalized real "real list" | WeightsSumNotOne real

record ('i, 'c) ETFTrick =
  prices_type_attr :: container
  prices_attr :: matrix
  columns_names_attr :: "'c list option"
  prices_index_attr :: "'i list option"
  weights_attr :: "real list"
  returns_attr :: "real list list option"
  cumulative_returns_attr :: "real list list option"
  etf_returns_attr :: "real list option"
  etf_cumulative_returns_attr :: "real list option"

text \<open>
  \<^verbatim>\<open>np.isclose(a, b)\<close> with numpy's default tolerances \<^verbatim>\<open>rtol=1e-05\<close> and
  \<^verbatim>\<open>atol=1e-08\<close>: \<^verbatim>\<open>absolute(a - b) <= atol + rtol * absolute(b)\<close>.
\<close>

definition isclose :: "real \<Rightarrow> real \<Rightarrow> bool" where
  "isclose a b = (\<bar>a - b\<bar> \<le> 1 / 10 ^ 8 + 1 / 10 ^ 5 * \<bar>b\<bar>)"

text \<open>
  What the first lines of \<^verbatim>\<open>__init__\<close> take from the prices (type, values, column
  names, index) and from the weights (values); \<open>None\<close> where the type check raises.
\<close>

fun prices_parts ::
  "('i, 'c) prices_arg \<Rightarrow> (container \<times> matrix \<times> 'c list option \<times> 'i list option) option" where
  "prices_parts (PricesNdarray m) = Some (TyNdarray, m, None, None)"
| "prices_parts (PricesDataFrame idx cols m) = Some (TyDataFrame, m, Some cols, Some idx)"
| "prices_parts PricesOther = None"

fun weights_values :: "weights_arg \<Rightarrow> real list option" where
  "weights_values (WeightsNdarray w) = Some w"
| "weights_values (WeightsSeries w) = Some w"
| "weights_values WeightsOther = None"

text \<open>
  \<^verbatim>\<open>__init__\<close> returns the object and the warnings it emitted. No derived attribute
  is set. Dividing the weights by a zero sum stores \<^verbatim>\<open>inf\<close>/\<^verbatim>\<open>nan\<close>:
  \<open>NotFinite\<close>.
\<close>

definition ETFTrick_init ::
  "('i, 'c) prices_arg \<Rightarrow> weights_arg \<Rightarrow> bool \<Rightarrow> py_error + (('i, 'c) ETFTrick \<times> warning list)" where
  "ETFTrick_init prices weights normalize_weights =
     (case prices_parts prices of
        None \<Rightarrow> Inl ValueError
      | Some (ptype, pm, cols, idx) \<Rightarrow>
          (case weights_values weights of
             None \<Rightarrow> Inl ValueError
           | Some w \<Rightarrow>
               if length w \<noteq> ncols pm then Inl ValueError
               else
                 let total_weights = sum_list w;
                     self = \<lparr>prices_type_attr = ptype, prices_attr = pm,
                             columns_names_attr = cols, prices_index_attr = idx,
                             weights_attr = w, returns_attr = None,
                             cumulative_returns_attr = None, etf_returns_attr = None,
                             etf_cumulative_returns_attr = None\<rparr>
                 in if \<not> isclose total_weights 1 then
                      if normalize_weights then
                        if total_weights = 0 then Inl NotFinite
                        else
                          let new_weights = map (\<lambda>x. x / total_weights) w
                          in Inr (self\<lparr>weights_attr := new_weights\<rparr>,
                                  [WeightsNormalized total_weights new_weights])
                      else Inr (self, [WeightsSumNotOne total_weights])
                    else Inr (self, [])))"

text \<open>
  \<^verbatim>\<open>np.cumprod\<close> of a vector, and along axis 0 of a matrix (also what
  \<^verbatim>\<open>DataFrame.cumprod\<close> computes): the first entry (row) is kept, every later one is
  multiplied (entry by entry) with the running product.
\<close>

fun cumprod_from :: "real \<Rightarrow> real list \<Rightarrow> real list" where
  "cumprod_from acc [] = []"
| "cumprod_from acc (x # xs) = (acc * x) # cumprod_from (acc * x) xs"

definition cumprod :: "real list \<Rightarrow> real list" where
  "cumprod xs = (case xs of [] \<Rightarrow> [] | x # rest \<Rightarrow> x # cumprod_from x rest)"

fun cumprod_rows_from :: "real list \<Rightarrow> real list list \<Rightarrow> real list list" where
  "cumprod_rows_from acc [] = []"
| "cumprod_rows_from acc (r # rs) =
     map2 (*) acc r # cumprod_rows_from (map2 (*) acc r) rs"

definition cumprod_axis0 :: "real list list \<Rightarrow> real list list" where
  "cumprod_axis0 m = (case m of [] \<Rightarrow> [] | r # rest \<Rightarrow> r # cumprod_rows_from r rest)"

text \<open>
  \<^verbatim>\<open>fit\<close>. \<^verbatim>\<open>prices[1:]\<close> is \<open>tl\<close>, \<^verbatim>\<open>prices[:-1]\<close> is \<open>butlast\<close>; the
  quotient is taken entry by entry, and a zero divisor stores \<^verbatim>\<open>inf\<close>/\<^verbatim>\<open>nan\<close>
  (\<open>NotFinite\<close>). \<^verbatim>\<open>returns @ weights\<close> is the dot product of each row with the
  weights.
\<close>

definition fit :: "('i, 'c) ETFTrick \<Rightarrow> py_error + ('i, 'c) ETFTrick" where
  "fit self =
     (let later = tl (rows (prices_attr self));
          earlier = butlast (rows (prices_attr self))
      in if list_ex (list_ex (\<lambda>p. p = 0)) earlier then Inl NotFinite
         else
           let returns = map2 (\<lambda>cur prev. map2 (\<lambda>p q. p / q - 1) cur prev) later earlier;
               cumulative_returns =
                 (if prices_type_attr self = TyDataFrame
                  then cumprod_axis0 (map (map (\<lambda>x. x + 1)) returns)
                  else cumprod_axis0 (map (map (\<lambda>x. x + 1)) returns));
               etf_returns = map (\<lambda>r. sum_list (map2 (*) r (weights_attr self))) returns;
               etf_cumulative_returns = cumprod (map (\<lambda>x. x + 1) etf_returns)
           in Inr (self\<lparr>returns_attr := Some returns,
                        cumulative_returns_attr := Some cumulative_returns,
                        etf_returns_attr := Some etf_returns,
                        etf_cumulative_returns_attr := Some etf_cumulative_returns\<rparr>))"

text \<open>
  The accessors return the bare values for array prices and the values with their labels
  (the index without its first entry, and the column names for a table) for DataFrame
  prices. Each raises \<^verbatim>\<open>KeyError\<close> while its attribute is absent.
\<close>

datatype ('i, 'c) table = TableNdarray "real list list" | TableDataFrame "'i list" "'c list" "real list list"

datatype 'i series = SeriesNdarray "real list" | SeriesPandas "'i list" "real list"

fun table_values :: "('i, 'c) table \<Rightarrow> real list list" where
  "table_values (TableNdarray v) = v"
| "table_values (TableDataFrame idx cols v) = v"

fun series_values :: "'i series \<Rightarrow> real list" where
  "series_values (SeriesNdarray v) = v"
| "series_values (SeriesPandas idx v) = v"

definition as_series :: "('i, 'c) ETFTrick \<Rightarrow> real list \<Rightarrow> py_error + 'i series" where
  "as_series self v =
     (if prices_type_attr self = TyDataFrame then
        (case prices_index_attr self of
           None \<Rightarrow> Inl AttributeError
         | Some idx \<Rightarrow> Inr (SeriesPandas (tl idx) v))
      else Inr (SeriesNdarray v))"

definition as_table :: "('i, 'c) ETFTrick \<Rightarrow> real list list \<Rightarrow> py_error + ('i, 'c) table" where
  "as_table self v =
     (if prices_type_attr self = TyDataFrame then
        (case prices_index_attr self of
           None \<Rightarrow> Inl AttributeError
         | Some idx \<Rightarrow>
             (case columns_names_attr self of
                None \<Rightarrow> Inl AttributeError
              | Some cols \<Rightarrow> Inr (TableDataFrame (tl idx) cols v)))
      else Inr (TableNdarray v))"

definition etf_returns :: "('i, 'c) ETFTrick \<Rightarrow> py_error + 'i series" where
  "etf_returns self =
     (case etf_returns_attr self of None \<Rightarrow> Inl KeyError | Some v \<Rightarrow> as_series self v)"

definition etf_cumulative_returns :: "('i, 'c) ETFTrick \<Rightarrow> py_error + 'i series" where
  "etf_cumulative_returns self =
     (case etf_cumulative_returns_attr self of None \<Rightarrow> Inl KeyError | Some v \<Rightarrow> as_series self v)"

definition returns :: "('i, 'c) ETFTrick \<Rightarrow> py_error + ('i, 'c) table" where
  "returns self =
     (case returns_attr self of None \<Rightarrow> Inl KeyError | Some v \<Rightarrow> as_table self v)"

definition cumulative_returns :: "('i, 'c) ETFTrick \<Rightarrow> py_error + ('i, 'c) table" where
  "cumulative_returns self =
     (case cumulative_returns_attr self of None \<Rightarrow> Inl KeyError | Some v \<Rightarrow> as_table self v)"

definition columns_names :: "('i, 'c) ETFTrick \<Rightarrow> py_error + 'c list" where
  "columns_names self =
     (case columns_names_attr self of None \<Rightarrow> Inl KeyError | Some cols \<Rightarrow> Inr cols)"

section \<open>Properties of CumSumFilter\<close>

text \<open>
  C1 (as amended). With threshold \<open>h = 0.3\<close>, \<^verbatim>\<open>filter()\<close> on
  \<open>[0.1, 0.1, 0.1, -0.5, 0.4, 0.4]\<close> returns the event list \<open>[2, 3, 4, 5]\<close>: after the
  events at positions 2 and 3 both accumulators are 0, and each of the two remaining values
  0.4 alone reaches the threshold.
\<close>

theorem filter_scenario:
  "filter_events [1/10, 1/10, 1/10, -(5/10), 4/10, 4/10] (3/10) = [2, 3, 4, 5]"
  by (simp add: filter_events_def)

text \<open>
  C1 (counterexample to the claim as stated). The event list of that scenario is not
  \<open>[2, 3]\<close>.
\<close>

theorem filter_scenario_not_2_3:
  "filter_events [1/10, 1/10, 1/10, -(5/10), 4/10, 4/10] (3/10) \<noteq> [2, 3]"
  by (simp add: filter_events_def)

subsection \<open>A positive threshold: at most one event per position\<close>

text \<open>
  One step of the loop with \<open>0 < h\<close> appends the position at most once: when the
  \<open>s_plus\<close> test fires, \<open>s_minus\<close> is reset to 0 and \<open>\<bar>0\<bar> \<ge> h\<close> is false. So the
  list stays strictly increasing and below the next position.
\<close>

lemma filter_loop_step:
  "\<exists>sp sm ev. filter_loop h i (v # vs) s_plus s_minus events = filter_loop h (Suc i) vs sp sm ev
      \<and> (ev = events \<or> ev = events @ [i] \<or> (h \<le> 0 \<and> ev = events @ [i, i]))"
  by (simp add: Let_def) blast

lemma filter_loop_strict:
  "0 < h \<Longrightarrow> sorted_wrt (<) events \<Longrightarrow> list_all (\<lambda>e. e < i) events
     \<Longrightarrow> sorted_wrt (<) (filter_loop h i vs s_plus s_minus events)"
proof (induction vs arbitrary: i s_plus s_minus events)
  case Nil
  then show ?case by simp
next
  case (Cons v vs)
  obtain sp sm ev where
    eq: "filter_loop h i (v # vs) s_plus s_minus events = filter_loop h (Suc i) vs sp sm ev"
    and ev: "ev = events \<or> ev = events @ [i] \<or> (h \<le> 0 \<and> ev = events @ [i, i])"
    using filter_loop_step by blast
  from ev Cons.prems have "sorted_wrt (<) ev"
    by (auto simp: sorted_wrt_append list_all_iff)
  moreover from ev Cons.prems have "list_all (\<lambda>e. e < Suc i) ev"
    by (auto simp: list_all_iff intro: less_SucI)
  ultimately show ?case
    unfolding eq using Cons.prems(1) by (intro Cons.IH)
qed

lemma filter_loop_bound:
  "list_all (\<lambda>e. e < i) events
     \<Longrightarrow> list_all (\<lambda>e. e < i + length vs) (filter_loop h i vs s_plus s_minus events)"
proof (induction vs arbitrary: i s_plus s_minus events)
  case Nil
  then show ?case by simp
next
  case (Cons v vs)
  obtain sp sm ev where
    eq: "filter_loop h i (v # vs) s_plus s_minus events = filter_loop h (Suc i) vs sp sm ev"
    and ev: "ev = events \<or> ev = events @ [i] \<or> (h \<le> 0 \<and> ev = events @ [i, i])"
    using filter_loop_step by blast
  from ev Cons.prems have "list_all (\<lambda>e. e < Suc i) ev"
    by (auto simp: list_all_iff intro: less_SucI)
  then have "list_all (\<lambda>e. e < Suc i + length vs) (filter_loop h (Suc i) vs sp sm ev)"
    by (rule Cons.IH)
  then show ?case
    unfolding eq by simp
qed

text \<open>
  C6. For every input sequence and every positive threshold \<open>h\<close>, the event list that
  \<^verbatim>\<open>filter()\<close> returns is strictly increasing and holds no position twice (and every
  event is a position of the sequence).
\<close>

theorem filter_strictly_increasing:
  assumes "0 < h"
  shows "sorted_wrt (<) (filter_events data h) \<and> distinct (filter_events data h)
         \<and> list_all (\<lambda>e. e < length data) (filter_events data h)"
proof -
  have s: "sorted_wrt (<) (filter_events data h)"
    unfolding filter_events_def using assms by (intro filter_loop_strict) simp_all
  have b: "list_all (\<lambda>e. e < length data) (filter_events data h)"
    unfolding filter_events_def using filter_loop_bound [of 0 "[]" data h 0 0] by simp
  from s have "distinct (filter_events data h)"
    by (simp add: strict_sorted_iff)
  with s b show ?thesis by simp
qed

theorem filter_strictly_increasing_witness:
  "(0::real) < 1/2
   \<and> filter_events [1/2, 1/4, -1, 1/4, 1/4] (1/2) = [0, 2, 4]
   \<and> sorted_wrt (<) (filter_events [1/2, 1/4, -1, 1/4, 1/4] (1/2))
   \<and> distinct (filter_events [1/2, 1/4, -1, 1/4, 1/4] (1/2))"
proof -
  have h: "(0::real) < 1/2" by simp
  have v: "filter_events [1/2, 1/4, -1, 1/4, 1/4] (1/2) = [0, 2, 4]"
    by (simp add: filter_events_def)
  show ?thesis
    using h v filter_strictly_increasing [OF h, of "[1/2, 1/4, -1, 1/4, 1/4]"] by simp
qed

subsection \<open>A threshold that is not positive: two events per position\<close>

lemma filter_loop_nonpos:
  "h \<le> 0 \<Longrightarrow> filter_loop h i vs s_plus s_minus events
     = events @ concat (map (\<lambda>j. [j, j]) [i ..< i + length vs])"
proof (induction vs arbitrary: i s_plus s_minus events)
  case Nil
  then show ?case by simp
next
  case (Cons v vs)
  have fire: "h \<le> max 0 (s_plus + v)"
    using Cons.prems by simp
  have again: "h \<le> \<bar>0::real\<bar>"
    using Cons.prems by simp
  have "filter_loop h i (v # vs) s_plus s_minus events
        = filter_loop h (Suc i) vs 0 0 ((events @ [i]) @ [i])"
    using fire again by (simp add: Let_def)
  also have "\<dots> = ((events @ [i]) @ [i]) @ concat (map (\<lambda>j. [j, j]) [Suc i ..< Suc i + length vs])"
    using Cons.prems by (rule Cons.IH)
  also have "\<dots> = events @ concat (map (\<lambda>j. [j, j]) [i ..< i + length (v # vs)])"
    by (simp add: upt_conv_Cons del: upt_Suc)
  finally show ?case .
qed

lemma count_list_pairs:
  "count_list (concat (map (\<lambda>j. [j, j]) xs)) (i::nat) = 2 * count_list xs i"
  by (induction xs) auto

lemma count_list_upt:
  "count_list [a ..< b] i = (if a \<le> i \<and> i < b then 1 else 0)"
  by (induction b) auto

text \<open>
  C9 (as amended). For every input sequence and every threshold \<open>h \<le> 0\<close>,
  \<^verbatim>\<open>filter()\<close> appends every position of the sequence exactly twice, in order: the
  event list is \<open>[0, 0, 1, 1, \<dots>]\<close>, each position occurs twice in it, and it is not
  strictly increasing when the sequence is not empty.
\<close>

theorem filter_nonpos_threshold:
  assumes "h \<le> 0"
  shows "filter_events data h = concat (map (\<lambda>j. [j, j]) [0 ..< length data])
         \<and> list_all (\<lambda>i. count_list (filter_events data h) i = 2) [0 ..< length data]
         \<and> (if data = [] then filter_events data h = []
             else \<not> sorted_wrt (<) (filter_events data h))"
proof -
  have eq: "filter_events data h = concat (map (\<lambda>j. [j, j]) [0 ..< length data])"
    unfolding filter_events_def using filter_loop_nonpos [OF assms, of 0 data 0 0 "[]"] by simp
  have cnt: "list_all (\<lambda>i. count_list (filter_events data h) i = 2) [0 ..< length data]"
    by (simp add: eq count_list_pairs count_list_upt list_all_iff)
  have ns: "\<not> sorted_wrt (<) (filter_events data h)" if "data \<noteq> []"
  proof -
    from that obtain v vs where d: "data = v # vs" by (cases data) auto
    have "[0 ..< length data] = 0 # [Suc 0 ..< length data]"
      by (simp add: d upt_conv_Cons del: upt_Suc)
    then have "filter_events data h
               = 0 # 0 # concat (map (\<lambda>j. [j, j]) [Suc 0 ..< length data])"
      unfolding eq by simp
    then show ?thesis by simp
  qed
  have emp: "filter_events [] h = []"
    by (simp add: filter_events_def)
  show ?thesis
  proof (cases "data = []")
    case True
    with eq cnt emp show ?thesis by simp
  next
    case False
    with eq cnt ns show ?thesis by simp
  qed
qed

theorem filter_nonpos_threshold_witness:
  "(0::real) \<le> 0
   \<and> filter_events [1/10, -(5/10), 0] 0 = [0, 0, 1, 1, 2, 2]
   \<and> \<not> sorted_wrt (<) (filter_events [1/10, -(5/10), 0] 0)"
proof -
  have h: "(0::real) \<le> 0" by simp
  show ?thesis
    using filter_nonpos_threshold [OF h, of "[1/10, -(5/10), 0]"]
    by (simp add: upt_conv_Cons)
qed

text \<open>
  C9 (counterexample to the claim as stated). On the empty sequence with \<open>h = 0\<close> the
  event list is empty, hence strictly increasing.
\<close>

theorem filter_nonpos_empty_sorted:
  "(0::real) \<le> 0 \<and> filter_events [] 0 = [] \<and> sorted_wrt (<) (filter_events [] 0)"
  by (simp add: filter_events_def)

section \<open>Properties of TimeSeriesEmbargoCV\<close>

subsection \<open>The fold size below \<open>2^53\<close>\<close>

text \<open>
  For a length below \<open>2^53\<close> and a positive divisor, rounding the quotient to a double
  does not change its integer part: \<^verbatim>\<open>int(a / b)\<close> is \<open>a div b\<close>. The distance of
  \<open>a / b\<close> to the next integer is at least \<open>1 / b\<close>, more than half the spacing of the
  doubles there.
\<close>

lemma round_half_even_floor: "\<lfloor>x\<rfloor> \<le> round_half_even x"
  by (simp add: round_half_even_def Let_def)

lemma round_half_even_le: "round_half_even x \<le> \<lfloor>x\<rfloor> + 1"
  by (simp add: round_half_even_def Let_def)

lemma round_half_even_up: "round_half_even x = \<lfloor>x\<rfloor> + 1 \<Longrightarrow> \<lfloor>x\<rfloor> + 1 / 2 \<le> x"
  by (auto simp: round_half_even_def Let_def split: if_splits)

lemma bitlen_real_bounds:
  assumes "0 < a"
  shows "2 powi (bitlen a - 1) \<le> real_of_int a" and "real_of_int a < 2 powi bitlen a"
proof -
  from assms have p: "1 \<le> bitlen a" by (auto simp: bitlen_alt_def)
  from bitlen_bounds [OF assms] have "2 ^ nat (bitlen a - 1) \<le> a" and "a < 2 ^ nat (bitlen a)"
    by simp_all
  then have "real_of_int (2 ^ nat (bitlen a - 1)) \<le> real_of_int a"
    and "real_of_int a < real_of_int (2 ^ nat (bitlen a))"
    by (simp_all only: of_int_le_iff of_int_less_iff)
  then show "2 powi (bitlen a - 1) \<le> real_of_int a" and "real_of_int a < 2 powi bitlen a"
    using p by (simp_all add: power_int_nonneg_exp)
qed

lemma quot_exponent_bounds:
  assumes "0 < a" and "0 < b"
  shows "real_of_int b * 2 powi quot_exponent a b \<le> real_of_int a"
    and "real_of_int a < real_of_int b * 2 powi (quot_exponent a b + 1)"
proof -
  define d where "d = bitlen a - bitlen b"
  have "(2::real) powi ((d + 1) + (bitlen b - 1)) = 2 powi (d + 1) * 2 powi (bitlen b - 1)"
    by (rule power_int_add) simp
  moreover have "(d + 1) + (bitlen b - 1) = bitlen a"
    by (simp add: d_def)
  ultimately have e1: "(2::real) powi bitlen a = 2 powi (d + 1) * 2 powi (bitlen b - 1)"
    by (simp only:)
  have "(2::real) powi (bitlen b + (d - 1)) = 2 powi bitlen b * 2 powi (d - 1)"
    by (rule power_int_add) simp
  moreover have "bitlen b + (d - 1) = bitlen a - 1"
    by (simp add: d_def)
  ultimately have e2: "(2::real) powi (bitlen a - 1) = 2 powi bitlen b * 2 powi (d - 1)"
    by (simp only:)
  have "real_of_int a < 2 powi (d + 1) * 2 powi (bitlen b - 1)"
    using bitlen_real_bounds(2) [OF assms(1)] by (simp only: e1)
  also have "\<dots> \<le> 2 powi (d + 1) * real_of_int b"
    using bitlen_real_bounds(1) [OF assms(2)] by (intro mult_left_mono) simp_all
  finally have hi: "real_of_int a < real_of_int b * 2 powi (d + 1)"
    by (simp only: mult.commute)
  have "real_of_int b * 2 powi (d - 1) \<le> 2 powi bitlen b * 2 powi (d - 1)"
    using bitlen_real_bounds(2) [OF assms(2)] by (intro mult_right_mono) simp_all
  also have "\<dots> = 2 powi (bitlen a - 1)"
    by (simp only: e2)
  also have "\<dots> \<le> real_of_int a"
    by (rule bitlen_real_bounds(1) [OF assms(1)])
  finally have lo: "real_of_int b * 2 powi (d - 1) \<le> real_of_int a" .
  show "real_of_int b * 2 powi quot_exponent a b \<le> real_of_int a"
  proof (cases "real_of_int b * 2 powi d \<le> real_of_int a")
    case True
    then show ?thesis by (simp only: quot_exponent_def Let_def d_def [symmetric] if_True)
  next
    case False
    then show ?thesis using lo by (simp only: quot_exponent_def Let_def d_def [symmetric] if_False)
  qed
  show "real_of_int a < real_of_int b * 2 powi (quot_exponent a b + 1)"
  proof (cases "real_of_int b * 2 powi d \<le> real_of_int a")
    case True
    then show ?thesis using hi by (simp only: quot_exponent_def Let_def d_def [symmetric] if_True)
  next
    case False
    then have "quot_exponent a b = d - 1"
      by (simp only: quot_exponent_def Let_def d_def [symmetric] if_False)
    then have "quot_exponent a b + 1 = d" by simp
    with False show ?thesis by simp
  qed
qed

lemma true_div_small:
  assumes "0 < a" and "a < 2 ^ 53" and "0 < b"
  shows "\<exists>r. true_div a b = Inr r \<and> real_of_int (a div b) \<le> r \<and> r < real_of_int (a div b) + 1"
proof -
  define x where "x = real_of_int a / real_of_int b"
  define k where "k = a div b"
  define e0 where "e0 = quot_exponent a b"
  define e where "e = max e0 (- 1022)"
  define n where "n = nat (52 - e)"
  define S where "S = (2::real) powi (52 - e)"
  define m where "m = round_half_even (x * S)"
  define r where "r = real_of_int m * 2 powi (e - 52)"
  have ra: "0 < real_of_int a" and rb: "0 < real_of_int b"
    using assms by simp_all
  have a53: "real_of_int a < 2 powi 53"
  proof -
    have "real_of_int a < real_of_int (2 ^ 53)"
      using assms(2) by (simp only: of_int_less_iff)
    then show ?thesis by simp
  qed
  have Spos: "0 < S"
    unfolding S_def by simp
  have lo: "real_of_int b * 2 powi e0 \<le> real_of_int a"
    and hi: "real_of_int a < real_of_int b * 2 powi (e0 + 1)"
    unfolding e0_def using quot_exponent_bounds [OF assms(1,3)] by simp_all
  have kf: "k = \<lfloor>x\<rfloor>"
    unfolding k_def x_def by (simp add: floor_divide_of_int_eq)
  have kx: "real_of_int k \<le> x" and xk: "x < real_of_int k + 1"
    unfolding kf by linarith+
  have k0: "0 \<le> k"
    unfolding k_def using assms by (simp add: pos_imp_zdiv_nonneg_iff)
  have ka: "k \<le> a"
    unfolding k_def using zdiv_mono2 [of a 1 b] assms by simp
  text \<open>The exponent is below 53, so the scaling factor is a power of two.\<close>
  have "1 * (2::real) powi e0 \<le> real_of_int b * 2 powi e0"
    using assms(3) by (intro mult_right_mono) simp_all
  with lo a53 have "(2::real) powi e0 < 2 powi 53"
    by linarith
  then have e0_53: "e0 < 53"
    by (rule power_int_le_imp_less_exp [rotated]) simp_all
  then have e52: "e \<le> 52"
    by (simp add: e_def)
  then have Sn: "S = real_of_int (2 ^ n)"
    unfolding S_def n_def by (simp add: power_int_nonneg_exp)
  have inv: "(2::real) powi (e - 52) = inverse S"
  proof -
    have "e - 52 = - (52 - e)" by simp
    then show ?thesis unfolding S_def by (simp only: power_int_minus)
  qed
  have r_div: "r = real_of_int m / S"
    unfolding r_def inv by (simp add: divide_inverse)
  text \<open>Rounding does not go below \<open>k\<close>.\<close>
  have "real_of_int (k * 2 ^ n) \<le> x * S"
    using kx Spos by (simp add: Sn)
  then have "k * 2 ^ n \<le> \<lfloor>x * S\<rfloor>"
    by (simp only: le_floor_iff)
  with round_half_even_floor [of "x * S"] have m_lo: "k * 2 ^ n \<le> m"
    unfolding m_def by linarith
  then have "real_of_int (k * 2 ^ n) \<le> real_of_int m"
    by (simp only: of_int_le_iff)
  then have "real_of_int k * S \<le> real_of_int m"
    by (simp add: Sn)
  then have r_lo: "real_of_int k \<le> r"
    unfolding r_div using Spos by (simp add: pos_le_divide_eq)
  text \<open>Rounding does not reach \<open>k + 1\<close>.\<close>
  have m_hi: "m < (k + 1) * 2 ^ n"
  proof (rule ccontr)
    assume "\<not> m < (k + 1) * 2 ^ n"
    then have U: "(k + 1) * 2 ^ n \<le> m" by simp
    have "x * S < real_of_int ((k + 1) * 2 ^ n)"
      using xk Spos by (simp add: Sn)
    then have fl: "\<lfloor>x * S\<rfloor> < (k + 1) * 2 ^ n"
      by (simp only: floor_less_iff)
    with U round_half_even_le [of "x * S"] have "m = \<lfloor>x * S\<rfloor> + 1" and mU: "m = (k + 1) * 2 ^ n"
      unfolding m_def by linarith+
    then have "real_of_int \<lfloor>x * S\<rfloor> + 1 / 2 \<le> x * S"
      unfolding m_def by (intro round_half_even_up) simp
    moreover have "real_of_int \<lfloor>x * S\<rfloor> = real_of_int m - 1"
      using \<open>m = \<lfloor>x * S\<rfloor> + 1\<close> by simp
    moreover have "real_of_int m = (real_of_int k + 1) * S"
      unfolding mU by (simp add: Sn)
    ultimately have half: "(real_of_int k + 1) * S - 1 / 2 \<le> x * S"
      by linarith
    show False
    proof (cases "- 1022 \<le> e0")
      case True
      then have ee: "e = e0" by (simp add: e_def)
      text \<open>The divisor is below \<open>2 * S\<close>, and the distance to \<open>k + 1\<close> is at least \<open>1 / b\<close>.\<close>
      have "(2::real) powi (e0 + (53 - e0)) = 2 powi e0 * 2 powi (53 - e0)"
        by (rule power_int_add) simp
      moreover have "e0 + (53 - e0) = 53" by simp
      moreover have "(2::real) powi ((52 - e0) + 1) = 2 powi (52 - e0) * 2 powi 1"
        by (rule power_int_add) simp
      moreover have "(52 - e0) + 1 = 53 - e0" by simp
      ultimately have p53: "(2::real) powi 53 = 2 powi e0 * (2 * S)"
        unfolding S_def ee by (simp only: power_int_1_right mult.commute mult.assoc)
      have "real_of_int b * 2 powi e0 < 2 powi e0 * (2 * S)"
        using lo a53 unfolding p53 by linarith
      then have b2S: "real_of_int b < 2 * S"
        by (simp add: mult.commute)
      have "a < (k + 1) * b"
        unfolding k_def using assms(3)
        by (metis add.commute distrib_left mult.commute mult.right_neutral
              div_mult_mod_eq add_strict_left_mono pos_mod_bound)
      then have "a + 1 \<le> (k + 1) * b" by simp
      then have "real_of_int (a + 1) \<le> real_of_int ((k + 1) * b)"
        by (simp only: of_int_le_iff)
      then have gap: "real_of_int a + 1 \<le> (real_of_int k + 1) * real_of_int b"
        by simp
      have "x * real_of_int b = real_of_int a"
        unfolding x_def using rb by simp
      then have xb: "x * S * real_of_int b = real_of_int a * S"
        by (simp add: mult.commute mult.left_commute)
      have "((real_of_int k + 1) * S - 1 / 2) * real_of_int b \<le> x * S * real_of_int b"
        using half rb by (intro mult_right_mono) simp_all
      then have "(real_of_int k + 1) * real_of_int b * S - real_of_int b / 2 \<le> real_of_int a * S"
        unfolding xb by (simp add: algebra_simps)
      moreover have "(real_of_int a + 1) * S \<le> (real_of_int k + 1) * real_of_int b * S"
        using gap Spos by (intro mult_right_mono) simp_all
      ultimately have "S \<le> real_of_int b / 2"
        by (simp add: algebra_simps)
      with b2S show False by simp
    next
      case False
      then have ee: "e = - 1022" and e1: "e0 + 1 \<le> - 1022" by (simp_all add: e_def)
      have "(2::real) powi (e0 + 1) \<le> 2 powi (- 1022)"
        using e1 by (intro power_int_increasing) simp_all
      then have "real_of_int b * 2 powi (e0 + 1) \<le> real_of_int b * 2 powi (- 1022)"
        using rb by (intro mult_left_mono) simp_all
      with hi have "real_of_int a < real_of_int b * 2 powi (- 1022)" by linarith
      then have "x < 2 powi (- 1022)"
        unfolding x_def using rb by (simp add: pos_divide_less_eq mult.commute)
      then have "x * S < 2 powi (- 1022) * S"
        using Spos by (intro mult_strict_right_mono)
      also have "\<dots> = 2 powi ((- 1022) + 1074)"
        unfolding S_def ee by (subst power_int_add) simp_all
      also have "\<dots> = 2 powi 52" by simp
      finally have xS: "x * S < 2 powi 52" .
      have "(2::real) powi 53 \<le> S"
        unfolding S_def ee by (intro power_int_increasing) simp_all
      moreover have "(2::real) powi 53 = 2 * 2 powi 52" by simp
      moreover have "1 * S \<le> (real_of_int k + 1) * S"
        using k0 Spos by (intro mult_right_mono) simp_all
      moreover have "(1::real) \<le> 2 powi 52" by simp
      ultimately show False using half xS by linarith
    qed
  qed
  then have "real_of_int m < real_of_int ((k + 1) * 2 ^ n)"
    by (simp only: of_int_less_iff)
  then have "real_of_int m < (real_of_int k + 1) * S"
    by (simp add: Sn)
  then have r_hi: "r < real_of_int k + 1"
    unfolding r_div using Spos by (simp add: pos_divide_less_eq)
  text \<open>No overflow, and the sign is positive.\<close>
  have "real_of_int k + 1 \<le> real_of_int a + 1"
    using ka by simp
  also have "\<dots> \<le> 2 powi 53 + 1"
    using a53 by simp
  also have "\<dots> \<le> 2 ^ 1024"
    by simp
  finally have no_ovf: "\<not> 2 ^ 1024 \<le> r"
    using r_hi by simp
  have "true_div a b = Inr r"
    using assms(1,3) no_ovf
    by (simp add: true_div_def Let_def r_def m_def S_def e_def e0_def x_def)
  with r_lo r_hi show ?thesis
    unfolding k_def by blast
qed

lemma int_true_div_small:
  assumes "0 \<le> a" and "a < 2 ^ 53" and "0 < b"
  shows "int_true_div a b = Inr (a div b)"
proof (cases "a = 0")
  case True
  with assms(3) show ?thesis
    by (simp add: int_true_div_def true_div_def py_int_def)
next
  case False
  with assms(1) have "0 < a" by simp
  from true_div_small [OF this assms(2,3)] obtain r where
    r: "true_div a b = Inr r" "real_of_int (a div b) \<le> r" "r < real_of_int (a div b) + 1"
    by blast
  have "0 \<le> a div b"
    using assms by (simp add: pos_imp_zdiv_nonneg_iff)
  with r(2) have "0 \<le> r" by linarith
  moreover from r(2,3) have "\<lfloor>r\<rfloor> = a div b" by linarith
  ultimately show ?thesis
    by (simp add: int_true_div_def r(1) py_int_def)
qed


lemma int_true_div_100_5: "int_true_div 100 5 = Inr 20"
  using int_true_div_small [of 100 5] by simp

text \<open>
  From \<open>2^53\<close> on the rounding shows: \<^verbatim>\<open>int((2^54 + 2) / 2)\<close> is \<open>2^53\<close>, not
  \<open>2^53 + 1\<close>.
\<close>

lemma int_true_div_large:
  "int_true_div 18014398509481986 2 = Inr 9007199254740992"
  by (simp add: int_true_div_def true_div_def quot_exponent_def compute_bitlen
        round_half_even_def py_int_def)

subsection \<open>Two scenarios\<close>

lemma py_range_5: "py_range 5 = [0, 1, 2, 3, 4]"
  by (simp add: py_range_def upto_rec1)

lemma py_range_4: "py_range 4 = [0, 1, 2, 3]"
  by (simp add: py_range_def upto_rec1)

text \<open>
  C3. With \<open>cv = 5\<close> and \<open>embargo_size = 0\<close> on a sequence of length 100,
  \<^verbatim>\<open>get_n_splits\<close> returns 5 and \<^verbatim>\<open>split\<close> yields 4 folds: the fold number 4,
  with train \<open>[80, 100)\<close>, would have the test range \<open>[100, 120)\<close>, and the loop breaks
  there.
\<close>

theorem split_cv5_embargo0_len100:
  "get_n_splits \<lparr>n_splits = 5, embargo_size = 0\<rparr> 100 = Inr 5
   \<and> split \<lparr>n_splits = 5, embargo_size = 0\<rparr> 100
       = Inr [(arange 0 20, arange 20 40), (arange 20 40, arange 40 60),
              (arange 40 60, arange 60 80), (arange 60 80, arange 80 100)]
   \<and> split_loop 100 20 0 [4] = []
   \<and> (4 * 20 + 20 + 0 + 20 - 0 :: int) = 120"
  by (simp add: get_n_splits_def split_def int_true_div_100_5 py_range_5)

subsection \<open>The number of folds\<close>

text \<open>
  For a negative \<open>cv\<close>, which the constructor accepts, \<^verbatim>\<open>int(n / cv)\<close> is not the
  floor: \<^verbatim>\<open>int(100 / -3)\<close> is \<open>-33\<close>, while \<open>100 div - 3 = - 34\<close>. The results
  below are about positive fold counts.
\<close>

lemma int_true_div_truncates:
  "int_true_div 100 (- 3) = Inr (- 33) \<and> (100::int) div - 3 = - 34"
  by (simp add: int_true_div_def true_div_def quot_exponent_def compute_bitlen
        round_half_even_def py_int_def)

lemma get_n_splits_code:
  assumes "int_true_div (int n) cv = Inr fold_size" and "fold_size \<noteq> 0"
  shows "get_n_splits \<lparr>n_splits = cv, embargo_size = e\<rparr> n
         = Inr (min cv ((int n - e) div fold_size))"
  using assms by (simp add: get_n_splits_def Let_def)

lemma split_code:
  assumes "int_true_div (int n) cv = Inr fold_size" and "fold_size \<noteq> 0"
  shows "split \<lparr>n_splits = cv, embargo_size = e\<rparr> n
         = Inr (split_loop (int n) fold_size e
                  (py_range (min cv ((int n - e) div fold_size))))"
  using assms by (simp add: split_def Let_def get_n_splits_code)

lemma get_n_splits_pos:
  assumes "0 < cv" and "int n div cv \<noteq> 0" and "int n < 2 ^ 53"
  shows "get_n_splits \<lparr>n_splits = cv, embargo_size = e\<rparr> n
         = Inr (min cv ((int n - e) div (int n div cv)))"
  using assms by (intro get_n_splits_code int_true_div_small) simp_all

lemma split_pos:
  assumes "0 < cv" and "int n div cv \<noteq> 0" and "int n < 2 ^ 53"
  shows "split \<lparr>n_splits = cv, embargo_size = e\<rparr> n
         = Inr (split_loop (int n) (int n div cv) e
                  (py_range (min cv ((int n - e) div (int n div cv)))))"
  using assms by (intro split_code int_true_div_small) simp_all


text \<open>
  C8 (as amended). For a positive fold count \<open>cv\<close>, any embargo size \<open>e\<close> and any
  sequence length \<open>n\<close> below \<open>2^53\<close> with \<open>fold_size = n div cv\<close> not zero,
  \<^verbatim>\<open>get_n_splits\<close> returns \<open>min cv ((n - e) div fold_size)\<close>. For \<open>cv = 5\<close>, \<open>e = 3\<close>, \<open>n = 100\<close> it returns 4
  and \<^verbatim>\<open>split\<close> yields exactly 4 folds, each with a train range of 20 positions and a
  test range of 17 positions that starts 3 positions after the end of the train range.
\<close>

theorem get_n_splits_formula:
  assumes "0 < cv" and "int n div cv \<noteq> 0" and "int n < 2 ^ 53"
  shows "get_n_splits \<lparr>n_splits = cv, embargo_size = e\<rparr> n
           = Inr (min cv ((int n - e) div (int n div cv)))
         \<and> get_n_splits \<lparr>n_splits = 5, embargo_size = 3\<rparr> 100 = Inr 4
         \<and> split \<lparr>n_splits = 5, embargo_size = 3\<rparr> 100
             = Inr [(arange 0 20, arange 23 40), (arange 20 40, arange 43 60),
                    (arange 40 60, arange 63 80), (arange 60 80, arange 83 100)]
         \<and> map (\<lambda>(train, test). (length train, length test, hd test - (last train + 1)))
               [(arange 0 20, arange 23 40), (arange 20 40, arange 43 60),
                (arange 40 60, arange 63 80), (arange 60 80, arange 83 100)]
             = [(20, 17, 3), (20, 17, 3), (20, 17, 3), (20, 17, 3)]"
proof -
  have a: "get_n_splits \<lparr>n_splits = 5, embargo_size = 3\<rparr> 100 = Inr 4"
    by (simp add: get_n_splits_def int_true_div_100_5)
  have b: "split \<lparr>n_splits = 5, embargo_size = 3\<rparr> 100
             = Inr [(arange 0 20, arange 23 40), (arange 20 40, arange 43 60),
                    (arange 40 60, arange 63 80), (arange 60 80, arange 83 100)]"
    by (simp add: split_def a int_true_div_100_5 py_range_4)
  have hd_upto: "\<And>i j :: int. i \<le> j \<Longrightarrow> hd [i .. j] = i"
    by (simp add: upto_rec1)
  have last_upto: "\<And>i j :: int. i \<le> j \<Longrightarrow> last [i .. j] = j"
    by (simp add: upto_rec2)
  have c: "map (\<lambda>(train, test). (length train, length test, hd test - (last train + 1)))
               [(arange 0 20, arange 23 40), (arange 20 40, arange 43 60),
                (arange 40 60, arange 63 80), (arange 60 80, arange 83 100)]
             = [(20, 17, 3), (20, 17, 3), (20, 17, 3), (20, 17, 3)]"
    by (simp add: arange_def hd_upto last_upto)
  from get_n_splits_pos [OF assms] a b c show ?thesis by simp
qed

theorem get_n_splits_formula_witness:
  "(0::int) < 7 \<and> int 30 div 7 \<noteq> 0 \<and> int 30 < 2 ^ 53
   \<and> get_n_splits \<lparr>n_splits = 7, embargo_size = 5\<rparr> 30 = Inr 6"
proof -
  have h1: "(0::int) < 7" by simp
  have h2: "int 30 div 7 \<noteq> 0" by simp
  have h3: "int 30 < 2 ^ 53" by simp
  show ?thesis
    using get_n_splits_formula [OF h1 h2 h3, of 5] by simp
qed

text \<open>
  C8 (counterexample to the claim as stated). With \<open>cv = 2\<close>, \<open>embargo_size = 1\<close> and
  the length \<open>2^54 + 2 = 18014398509481986\<close>, the quotient \<open>2^53 + 1\<close> is rounded to the
  double \<open>2^53\<close>, so \<^verbatim>\<open>get_n_splits\<close> returns \<open>min 2 ((2^54 + 1) div 2^53) = 2\<close>, while
  \<open>fold_size = n div cv = 2^53 + 1\<close> is not zero and \<open>min cv ((n - e) div fold_size)\<close> is 1.
\<close>

theorem get_n_splits_beyond_double:
  "get_n_splits \<lparr>n_splits = 2, embargo_size = 1\<rparr> 18014398509481986 = Inr 2
   \<and> int 18014398509481986 div 2 = 9007199254740993
   \<and> min 2 ((int 18014398509481986 - 1) div (int 18014398509481986 div 2)) = 1"
  by (simp add: get_n_splits_def int_true_div_large)



subsection \<open>The layout of the folds\<close>

lemma contiguous_upto: "contiguous [i .. j]"
proof (induction i j rule: upto.induct)
  case (1 i j)
  show ?case
  proof (cases "i + 1 \<le> j")
    case True
    then have "[i .. j] = i # (i + 1) # [i + 1 + 1 .. j]"
      by (simp add: upto_rec1 [of i j] upto_rec1 [of "i + 1" j])
    moreover have "contiguous [i + 1 .. j]"
      using True by (intro "1.IH") simp
    moreover have "[i + 1 .. j] = (i + 1) # [i + 1 + 1 .. j]"
      using True by (simp add: upto_rec1 [of "i + 1" j])
    ultimately show ?thesis by simp
  next
    case False
    then have "[i .. j] = [] \<or> [i .. j] = [i]"
      by (cases "i \<le> j") (simp_all add: upto_rec1 [of i j])
    then show ?thesis by auto
  qed
qed

lemma split_loop_takeWhile:
  "split_loop n f e ks
     = map (\<lambda>i. (arange (i * f) (i * f + f), arange (i * f + f + e) (i * f + f + e + f - e)))
         (takeWhile (\<lambda>i. \<not> n < i * f + f + e + f - e) ks)"
  by (induction ks) (simp_all add: Let_def)

lemma takeWhile_py_range_nth:
  assumes "k < length (takeWhile P (py_range m))"
  shows "takeWhile P (py_range m) ! k = int k \<and> P (int k)"
proof -
  have "length (takeWhile P (py_range m)) \<le> length (py_range m)"
    by (rule length_takeWhile_le)
  with assms have "k < length (py_range m)" by simp
  then have "int k \<le> m - 1"
    by (simp add: py_range_def)
  then have "py_range m ! k = int k"
    by (simp add: py_range_def)
  with assms have eq: "takeWhile P (py_range m) ! k = int k"
    by (simp add: takeWhile_nth)
  from assms have "takeWhile P (py_range m) ! k \<in> set (takeWhile P (py_range m))"
    by (rule nth_mem)
  then have "P (takeWhile P (py_range m) ! k)"
    by (rule set_takeWhileD [THEN conjunct2])
  with eq show ?thesis by simp
qed

lemma fold_starts_mono:
  assumes "i < j" and "0 < (f::int)"
  shows "int i * f + f \<le> int j * f"
proof -
  from assms(1) have "int i + 1 \<le> int j" by simp
  then have "(int i + 1) * f \<le> int j * f"
    using assms(2) by (intro mult_right_mono) simp_all
  then show ?thesis by (simp add: algebra_simps)
qed

text \<open>
  C5 (as amended). For a positive \<open>cv\<close>, a non-negative \<open>embargo_size\<close> and every sequence
  length below \<open>2^53\<close>: \<^verbatim>\<open>split\<close> raises \<^verbatim>\<open>ZeroDivisionError\<close> when \<open>fold_size = n div cv\<close> is
  zero; otherwise it yields folds such that the fold number \<open>k\<close> is the pair of the
  contiguous ranges \<open>[k * fold_size, (k + 1) * fold_size)\<close> and
  \<open>[(k + 1) * fold_size + e, (k + 2) * fold_size)\<close>, the latter ending within the
  sequence; in each fold the train range precedes the test range with the embargo gap; the
  train ranges of different folds do not overlap, and neither do the test ranges of
  different folds.
\<close>

theorem split_folds_layout:
  assumes "0 < cv" and "0 \<le> e" and "int n < 2 ^ 53"
  shows "if int n div cv = 0
         then split \<lparr>n_splits = cv, embargo_size = e\<rparr> n = Inl ZeroDivisionError
         else (\<exists>folds. split \<lparr>n_splits = cv, embargo_size = e\<rparr> n = Inr folds
            \<and> (\<forall>k < length folds.
                 folds ! k = (arange (int k * (int n div cv)) (int k * (int n div cv) + int n div cv),
                              arange (int k * (int n div cv) + int n div cv + e)
                                     (int k * (int n div cv) + int n div cv + int n div cv))
                 \<and> int k * (int n div cv) + int n div cv + int n div cv \<le> int n)
            \<and> list_all (\<lambda>(train, test). contiguous train \<and> contiguous test
                                       \<and> precedes_with_gap e train test) folds
            \<and> non_overlapping (map fst folds)
            \<and> non_overlapping (map snd folds))"
proof (cases "int n div cv = 0")
  case True
  then show ?thesis
    using assms(1,3) by (simp add: split_def Let_def get_n_splits_def int_true_div_small)
next
  case False
  define f where "f = int n div cv"
  define folds where "folds = split_loop (int n) f e
      (py_range (min cv ((int n - e) div f)))"
  have "0 \<le> f"
    unfolding f_def using assms(1) by (simp add: pos_imp_zdiv_nonneg_iff)
  with False have fpos: "0 < f" by (simp add: f_def)
  have run: "split \<lparr>n_splits = cv, embargo_size = e\<rparr> n = Inr folds"
    unfolding folds_def f_def using split_pos [OF assms(1) False assms(3)] .
  have nth: "folds ! k = (arange (int k * f) (int k * f + f),
                          arange (int k * f + f + e) (int k * f + f + f))
             \<and> int k * f + f + f \<le> int n" if "k < length folds" for k
  proof -
    let ?P = "\<lambda>i. \<not> int n < i * f + f + e + f - e"
    let ?ks = "takeWhile ?P (py_range (min cv ((int n - e) div f)))"
    from that have k: "k < length ?ks"
      by (simp add: folds_def split_loop_takeWhile)
    from takeWhile_py_range_nth [OF k] have "?ks ! k = int k" and "?P (int k)"
      by simp_all
    then show ?thesis
      using k by (simp add: folds_def split_loop_takeWhile)
  qed
  have each: "list_all (\<lambda>(train, test). contiguous train \<and> contiguous test
                                       \<and> precedes_with_gap e train test) folds"
    unfolding list_all_length
  proof (intro allI impI)
    fix k assume "k < length folds"
    from nth [OF this] show "case folds ! k of (train, test) \<Rightarrow>
        contiguous train \<and> contiguous test \<and> precedes_with_gap e train test"
      by (auto simp: arange_def contiguous_upto precedes_with_gap_def list_all_iff)
  qed
  have trains: "non_overlapping (map fst folds)"
    unfolding non_overlapping_def sorted_wrt_iff_nth_less
  proof (intro allI impI)
    fix i j assume ij: "i < j" and "j < length (map fst folds)"
    then have j: "j < length folds" and i: "i < length folds" by simp_all
    from fold_starts_mono [OF ij fpos] nth [OF i] nth [OF j] i j
    show "set (map fst folds ! i) \<inter> set (map fst folds ! j) = {}"
      by (auto simp: arange_def)
  qed
  have tests: "non_overlapping (map snd folds)"
    unfolding non_overlapping_def sorted_wrt_iff_nth_less
  proof (intro allI impI)
    fix i j assume ij: "i < j" and "j < length (map snd folds)"
    then have j: "j < length folds" and i: "i < length folds" by simp_all
    from fold_starts_mono [OF ij fpos] nth [OF i] nth [OF j] i j assms(2)
    show "set (map snd folds ! i) \<inter> set (map snd folds ! j) = {}"
      by (auto simp: arange_def)
  qed
  from False run nth each trains tests show ?thesis
    unfolding f_def by auto
qed

lemma split_cv5_embargo3:
  "split \<lparr>n_splits = 5, embargo_size = 3\<rparr> 100
     = Inr [(arange 0 20, arange 23 40), (arange 20 40, arange 43 60),
            (arange 40 60, arange 63 80), (arange 60 80, arange 83 100)]"
  by (simp add: split_def get_n_splits_def int_true_div_100_5 py_range_4)

theorem split_folds_layout_witness:
  "(0::int) < 5 \<and> (0::int) \<le> 3 \<and> int 100 < 2 ^ 53 \<and> int 100 div 5 \<noteq> 0
   \<and> split \<lparr>n_splits = 5, embargo_size = 3\<rparr> 100
       = Inr [(arange 0 20, arange 23 40), (arange 20 40, arange 43 60),
              (arange 40 60, arange 63 80), (arange 60 80, arange 83 100)]
   \<and> non_overlapping [arange 0 20, arange 20 40, arange 40 60, arange 60 80]
   \<and> non_overlapping [arange 23 40, arange 43 60, arange 63 80, arange 83 100]
   \<and> precedes_with_gap 3 (arange 0 20) (arange 23 40)"
proof -
  have h1: "(0::int) < 5" by simp
  have h2: "(0::int) \<le> 3" by simp
  have h3: "int 100 < 2 ^ 53" by simp
  show ?thesis
    using split_folds_layout [OF h1 h2 h3] by (simp add: split_cv5_embargo3)
qed

text \<open>
  C5 (counterexample to the claim as stated). With \<open>cv = 5\<close>, \<open>embargo_size = 0\<close> and
  length 100 the ranges of the yielded folds are not pairwise non-overlapping: the test
  range of fold 0 and the train range of fold 1 are both \<open>[20, 40)\<close>.
\<close>

theorem split_ranges_overlap:
  "split \<lparr>n_splits = 5, embargo_size = 0\<rparr> 100
     = Inr [(arange 0 20, arange 20 40), (arange 20 40, arange 40 60),
            (arange 40 60, arange 60 80), (arange 60 80, arange 80 100)]
   \<and> \<not> non_overlapping (all_ranges
          [(arange 0 20, arange 20 40), (arange 20 40, arange 40 60),
           (arange 40 60, arange 60 80), (arange 60 80, arange 80 100)])"
  by (simp add: split_def get_n_splits_def int_true_div_100_5 py_range_5
        non_overlapping_def all_ranges_def arange_def)

section \<open>Properties of the accessors\<close>

lemma ETFTrick_init_unfit:
  assumes "ETFTrick_init prices weights normalize_weights = Inr (self, warnings)"
  shows "returns_attr self = None \<and> cumulative_returns_attr self = None
         \<and> etf_returns_attr self = None \<and> etf_cumulative_returns_attr self = None"
  using assms
  by (auto simp: ETFTrick_init_def Let_def split: option.splits if_splits prod.splits)

lemma CumSumFilter_init_events:
  assumes "CumSumFilter_init log_returns h = Inr self"
  shows "events_attr self = []"
  using assms by (auto simp: CumSumFilter_init_def split: log_returns.splits if_splits)

text \<open>
  C2 (as amended). For every ETFTrick instance, each of \<^verbatim>\<open>returns\<close>,
  \<^verbatim>\<open>cumulative_returns\<close>, \<^verbatim>\<open>etf_returns\<close> and \<^verbatim>\<open>etf_cumulative_returns\<close>
  raises \<^verbatim>\<open>KeyError\<close> before \<^verbatim>\<open>fit()\<close>. For every CumSumFilter instance, before
  \<^verbatim>\<open>filter()\<close> has been called, \<^verbatim>\<open>events_index\<close> returns the empty list and
  \<^verbatim>\<open>filtered_events\<close> the empty array; neither raises.
\<close>

theorem accessors_before_producer:
  assumes "ETFTrick_init prices weights normalize_weights = Inr (etf, warnings)"
    and "CumSumFilter_init log_returns h = Inr csf"
  shows "returns etf = Inl KeyError \<and> cumulative_returns etf = Inl KeyError
         \<and> etf_returns etf = Inl KeyError \<and> etf_cumulative_returns etf = Inl KeyError
         \<and> events_index csf = Inr [] \<and> filtered_events csf = Inr []"
  using ETFTrick_init_unfit [OF assms(1)] CumSumFilter_init_events [OF assms(2)]
  by (simp add: returns_def cumulative_returns_def etf_returns_def
        etf_cumulative_returns_def events_index_def filtered_events_def)

lemma ETFTrick_init_example:
  "ETFTrick_init (PricesNdarray \<lparr>ncols = 2, rows = [[1, 2], [2, 3]]\<rparr> :: (nat, nat) prices_arg)
       (WeightsNdarray [1/2, 1/2]) True
     = Inr (\<lparr>prices_type_attr = TyNdarray,
              prices_attr = \<lparr>ncols = 2, rows = [[1, 2], [2, 3]]\<rparr>,
              columns_names_attr = None, prices_index_attr = None,
              weights_attr = [1/2, 1/2], returns_attr = None,
              cumulative_returns_attr = None, etf_returns_attr = None,
              etf_cumulative_returns_attr = None\<rparr>, [])"
  by (simp add: ETFTrick_init_def isclose_def)

lemma CumSumFilter_init_example:
  "CumSumFilter_init (LrNdarray [1/10, 1/5] :: nat log_returns) (3/10)
     = Inr \<lparr>index_attr = None, data_attr = [1/10, 1/5], h_attr = 3/10, events_attr = []\<rparr>"
  by (simp add: CumSumFilter_init_def)

theorem accessors_before_producer_witness:
  "returns (\<lparr>prices_type_attr = TyNdarray,
              prices_attr = \<lparr>ncols = 2, rows = [[1, 2], [2, 3]]\<rparr>,
              columns_names_attr = None, prices_index_attr = None,
              weights_attr = [1/2, 1/2], returns_attr = None,
              cumulative_returns_attr = None, etf_returns_attr = None,
              etf_cumulative_returns_attr = None\<rparr> :: (nat, nat) ETFTrick) = Inl KeyError
   \<and> events_index (\<lparr>index_attr = None, data_attr = [1/10, 1/5], h_attr = 3/10,
                      events_attr = []\<rparr> :: nat CumSumFilter) = Inr []"
  using accessors_before_producer [OF ETFTrick_init_example CumSumFilter_init_example]
  by simp

text \<open>
  C2 (counterexample to the claim as stated). A CumSumFilter built on the array
  \<open>[0.1, 0.2]\<close> with \<open>h = 0.3\<close>, read before \<^verbatim>\<open>filter()\<close>: \<^verbatim>\<open>events_index\<close> and
  \<^verbatim>\<open>filtered_events\<close> return empty results instead of raising.
\<close>

theorem csf_accessors_do_not_raise:
  "CumSumFilter_init (LrNdarray [1/10, 1/5] :: nat log_returns) (3/10)
     = Inr \<lparr>index_attr = None, data_attr = [1/10, 1/5], h_attr = 3/10, events_attr = []\<rparr>
   \<and> events_index (\<lparr>index_attr = None, data_attr = [1/10, 1/5], h_attr = 3/10,
                      events_attr = []\<rparr> :: nat CumSumFilter) = Inr []
   \<and> filtered_events (\<lparr>index_attr = None, data_attr = [1/10, 1/5], h_attr = 3/10,
                         events_attr = []\<rparr> :: nat CumSumFilter) = Inr []"
  by (simp add: CumSumFilter_init_def events_index_def filtered_events_def)

section \<open>Properties of ETFTrick\<close>

lemma sum_list_divide:
  "sum_list (map (\<lambda>x. x / c) w) = sum_list w / (c::real)"
  by (induction w) (simp_all add: add_divide_distrib)

text \<open>
  C4 (as amended). With normalization enabled, the constructor decides by
  \<^verbatim>\<open>np.isclose\<close>, that is by \<open>\<bar>S - 1\<bar> \<le> 1e-8 + 1e-5\<close> for the sum \<open>S\<close> of the
  weights. Within that tolerance the weights are kept as given and nothing is warned.
  Outside it, and for \<open>S \<noteq> 0\<close>, each weight becomes the original one divided by \<open>S\<close>, the
  new weights sum to 1, and one warning names \<open>S\<close> and the new weights.
\<close>

theorem init_normalizes_weights:
  assumes "prices_parts prices = Some (ptype, pm, cols, idx)"
    and "weights_values weights = Some w"
    and "length w = ncols pm"
    and "sum_list w \<noteq> 0"
  shows "\<exists>self warnings. ETFTrick_init prices weights True = Inr (self, warnings)
           \<and> (if \<bar>sum_list w - 1\<bar> \<le> 1001 / 10 ^ 8
               then weights_attr self = w \<and> warnings = []
               else weights_attr self = map (\<lambda>x. x / sum_list w) w
                    \<and> sum_list (weights_attr self) = 1
                    \<and> warnings = [WeightsNormalized (sum_list w) (weights_attr self)])"
proof -
  have tol: "isclose (sum_list w) 1 = (\<bar>sum_list w - 1\<bar> \<le> 1001 / 10 ^ 8)"
    by (simp add: isclose_def)
  show ?thesis
  proof (cases "isclose (sum_list w) 1")
    case True
    with assms tol show ?thesis
      by (simp add: ETFTrick_init_def Let_def)
  next
    case False
    with assms tol show ?thesis
      by (simp add: ETFTrick_init_def Let_def sum_list_divide)
  qed
qed

theorem init_normalizes_weights_witness:
  "sum_list [1, 3 :: real] \<noteq> 0 \<and> \<not> \<bar>sum_list [1, 3 :: real] - 1\<bar> \<le> 1001 / 10 ^ 8
   \<and> (\<exists>self warnings.
         ETFTrick_init (PricesNdarray \<lparr>ncols = 2, rows = [[1, 2], [2, 3]]\<rparr>
                          :: (nat, nat) prices_arg) (WeightsNdarray [1, 3]) True
           = Inr (self, warnings)
         \<and> weights_attr self = [1/4, 3/4] \<and> sum_list (weights_attr self) = 1)"
proof -
  have p: "prices_parts (PricesNdarray \<lparr>ncols = 2, rows = [[1, 2], [2, 3]]\<rparr>
                           :: (nat, nat) prices_arg)
             = Some (TyNdarray, \<lparr>ncols = 2, rows = [[1, 2], [2, 3]]\<rparr>, None, None)"
    by simp
  have w: "weights_values (WeightsNdarray [1, 3]) = Some [1, 3]"
    by simp
  have l: "length [1, 3 :: real] = ncols \<lparr>ncols = 2, rows = [[1, 2], [2, 3]]\<rparr>"
    by simp
  have s: "sum_list [1, 3 :: real] \<noteq> 0"
    by simp
  from init_normalizes_weights [OF p w l s] obtain self warnings where
    "ETFTrick_init (PricesNdarray \<lparr>ncols = 2, rows = [[1, 2], [2, 3]]\<rparr>
                      :: (nat, nat) prices_arg) (WeightsNdarray [1, 3]) True
       = Inr (self, warnings)"
    and "weights_attr self = [1/4, 3/4]" and "sum_list (weights_attr self) = 1"
    by auto
  then show ?thesis by auto
qed

text \<open>
  C4 (counterexample to the claim as stated). The weights \<open>[0.5, 0.500001]\<close> sum to
  \<open>1.000001 \<noteq> 1\<close>; with normalization enabled the constructor keeps them as they are, so
  their sum is further than \<open>1e-8\<close> from 1 and they are not the originals divided by the sum.
\<close>

theorem init_keeps_weights_near_one:
  "ETFTrick_init (PricesNdarray \<lparr>ncols = 2, rows = [[1, 2], [2, 3]]\<rparr> :: (nat, nat) prices_arg)
       (WeightsNdarray [1/2, 500001/1000000]) True
     = Inr (\<lparr>prices_type_attr = TyNdarray,
              prices_attr = \<lparr>ncols = 2, rows = [[1, 2], [2, 3]]\<rparr>,
              columns_names_attr = None, prices_index_attr = None,
              weights_attr = [1/2, 500001/1000000], returns_attr = None,
              cumulative_returns_attr = None, etf_returns_attr = None,
              etf_cumulative_returns_attr = None\<rparr>, [])
   \<and> sum_list [1/2, 500001/1000000 :: real] \<noteq> 1
   \<and> \<not> \<bar>sum_list [1/2, 500001/1000000 :: real] - 1\<bar> \<le> 1 / 10 ^ 8
   \<and> [1/2, 500001/1000000 :: real]
       \<noteq> map (\<lambda>x. x / sum_list [1/2, 500001/1000000]) [1/2, 500001/1000000]"
  by (simp add: ETFTrick_init_def isclose_def)

subsection \<open>Cumulative products\<close>

lemma cumprod_from_nth:
  "j < length xs \<Longrightarrow> cumprod_from acc xs ! j = acc * (\<Prod>k\<le>j. xs ! k)"
proof (induction xs arbitrary: acc j)
  case Nil
  then show ?case by simp
next
  case (Cons x xs)
  show ?case
  proof (cases j)
    case 0
    then show ?thesis by simp
  next
    case (Suc j')
    with Cons.prems have "j' < length xs" by simp
    from Cons.IH [OF this, of "acc * x"] Suc show ?thesis
      by (simp add: prod.atMost_Suc_shift mult.assoc del: prod.atMost_Suc)
  qed
qed

lemma length_cumprod_from: "length (cumprod_from acc xs) = length xs"
  by (induction xs arbitrary: acc) simp_all

lemma length_cumprod: "length (cumprod xs) = length xs"
  by (cases xs) (simp_all add: cumprod_def length_cumprod_from)

lemma cumprod_nth:
  assumes "j < length xs"
  shows "cumprod xs ! j = (\<Prod>k\<le>j. xs ! k)"
proof (cases xs)
  case Nil
  with assms show ?thesis by simp
next
  case (Cons x rest)
  show ?thesis
  proof (cases j)
    case 0
    with Cons show ?thesis by (simp add: cumprod_def)
  next
    case (Suc j')
    with assms Cons have "j' < length rest" by simp
    from cumprod_from_nth [OF this, of x] Cons Suc show ?thesis
      by (simp add: cumprod_def prod.atMost_Suc_shift del: prod.atMost_Suc)
  qed
qed

lemma cumprod_rows_from_nth:
  "j < length rs \<Longrightarrow> n < length acc \<Longrightarrow> list_all (\<lambda>r. n < length r) rs
     \<Longrightarrow> cumprod_rows_from acc rs ! j ! n = acc ! n * (\<Prod>k\<le>j. rs ! k ! n)"
proof (induction rs arbitrary: acc j)
  case Nil
  then show ?case by simp
next
  case (Cons r rs)
  from Cons.prems have n: "n < length (map2 (*) acc r)" by simp
  show ?case
  proof (cases j)
    case 0
    with Cons.prems show ?thesis by simp
  next
    case (Suc j')
    with Cons.prems have "j' < length rs" and "list_all (\<lambda>r. n < length r) rs"
      by simp_all
    from Cons.IH [OF this(1) n this(2)] Suc Cons.prems show ?thesis
      by (simp add: prod.atMost_Suc_shift mult.assoc del: prod.atMost_Suc)
  qed
qed

lemma length_cumprod_rows_from: "length (cumprod_rows_from acc rs) = length rs"
  by (induction rs arbitrary: acc) simp_all

lemma length_cumprod_axis0: "length (cumprod_axis0 m) = length m"
  by (cases m) (simp_all add: cumprod_axis0_def length_cumprod_rows_from)

lemma cumprod_axis0_nth:
  assumes "j < length m" and "list_all (\<lambda>r. n < length r) m"
  shows "cumprod_axis0 m ! j ! n = (\<Prod>k\<le>j. m ! k ! n)"
proof (cases m)
  case Nil
  with assms show ?thesis by simp
next
  case (Cons r rest)
  show ?thesis
  proof (cases j)
    case 0
    with Cons show ?thesis by (simp add: cumprod_axis0_def)
  next
    case (Suc j')
    with assms Cons have "j' < length rest" and "n < length r"
      and "list_all (\<lambda>r. n < length r) rest" by simp_all
    from cumprod_rows_from_nth [OF this] Cons Suc show ?thesis
      by (simp add: cumprod_axis0_def prod.atMost_Suc_shift del: prod.atMost_Suc)
  qed
qed

lemma prod_shift_one:
  "1 \<le> t \<Longrightarrow> (\<Prod>k\<le>t - 1. g k) = (\<Prod>k = 1..t. g (k - 1))" for g :: "nat \<Rightarrow> real"
proof -
  assume "1 \<le> t"
  then obtain s where t: "t = Suc s" by (cases t) auto
  have "(\<Prod>k = Suc 0..Suc s. g (k - 1)) = (\<Prod>k = 0..s. g k)"
    by (simp add: prod.atLeast_Suc_atMost_Suc_shift del: prod.cl_ivl_Suc)
  then show ?thesis by (simp add: t atMost_atLeast0 del: prod.cl_ivl_Suc)
qed

lemma ETFTrick_init_labels:
  assumes "ETFTrick_init prices weights normalize_weights = Inr (self, warnings)"
  shows "prices_type_attr self = TyDataFrame
         \<longrightarrow> prices_index_attr self \<noteq> None \<and> columns_names_attr self \<noteq> None"
  using assms
  by (cases prices)
     (auto simp: ETFTrick_init_def Let_def split: option.splits if_splits)

lemma as_table_values:
  assumes "prices_type_attr self = TyDataFrame
           \<longrightarrow> prices_index_attr self \<noteq> None \<and> columns_names_attr self \<noteq> None"
  shows "\<exists>tb. as_table self v = Inr tb \<and> table_values tb = v"
  using assms by (auto simp: as_table_def)

lemma as_series_values:
  assumes "prices_type_attr self = TyDataFrame
           \<longrightarrow> prices_index_attr self \<noteq> None \<and> columns_names_attr self \<noteq> None"
  shows "\<exists>sr. as_series self v = Inr sr \<and> series_values sr = v"
  using assms by (auto simp: as_series_def)

lemma returns_rows:
  assumes "list_all (\<lambda>r. length r = N) rws" and "k < length rws - 1" and "n < N"
  shows "n < length (map2 (\<lambda>cur prev. map2 (\<lambda>p q. p / q - 1) cur prev)
                       (tl rws) (butlast rws) ! k)"
proof -
  from assms(2) have "k < length (tl rws)" and "k < length (butlast rws)" by simp_all
  moreover from this have "tl rws ! k \<in> set rws" and "butlast rws ! k \<in> set rws"
    by (metis list.sel(2) list.set_sel(2) nth_mem, metis in_set_butlastD nth_mem)
  ultimately show ?thesis
    using assms(1,3) by (simp add: list_all_iff)
qed

text \<open>
  C7. After \<^verbatim>\<open>fit()\<close>, with the rows numbered \<open>1, \<dots>, T - 1\<close> as in the price
  matrix (row \<open>t\<close> is entry \<open>t - 1\<close> of the arrays): for every asset column \<open>n\<close> and
  every row \<open>t\<close>, \<^verbatim>\<open>cumulative_returns[t, n]\<close> is the product over \<open>k = 1..t\<close> of
  \<open>1 + returns[k, n]\<close>, and \<^verbatim>\<open>etf_cumulative_returns[t]\<close> is the product over
  \<open>k = 1..t\<close> of \<open>1 + etf_returns[k]\<close>, exactly over exact arithmetic. All four
  accessors return arrays of \<open>T - 1\<close> rows.
\<close>

theorem fit_cumulative_products:
  assumes "ETFTrick_init prices weights normalize_weights = Inr (self, warnings)"
    and "rectangular (prices_attr self)"
    and "fit self = Inr fitted"
  shows "\<exists>rt ct es ecs.
           returns fitted = Inr rt \<and> cumulative_returns fitted = Inr ct
           \<and> etf_returns fitted = Inr es \<and> etf_cumulative_returns fitted = Inr ecs
           \<and> length (table_values rt) = length (rows (prices_attr self)) - 1
           \<and> length (table_values ct) = length (table_values rt)
           \<and> length (series_values es) = length (table_values rt)
           \<and> length (series_values ecs) = length (table_values rt)
           \<and> (\<forall>t n. 1 \<le> t \<and> t \<le> length (table_values rt) \<and> n < ncols (prices_attr self)
                 \<longrightarrow> table_values ct ! (t - 1) ! n
                       = (\<Prod>k = 1..t. 1 + table_values rt ! (k - 1) ! n))
           \<and> (\<forall>t. 1 \<le> t \<and> t \<le> length (table_values rt)
                 \<longrightarrow> series_values ecs ! (t - 1)
                       = (\<Prod>k = 1..t. 1 + series_values es ! (k - 1)))"
proof -
  define rws where "rws = rows (prices_attr self)"
  define R where "R = map2 (\<lambda>cur prev. map2 (\<lambda>p q. p / q - 1) cur prev) (tl rws) (butlast rws)"
  define C where "C = cumprod_axis0 (map (map (\<lambda>x. x + 1)) R)"
  define E where "E = map (\<lambda>r. sum_list (map2 (*) r (weights_attr self))) R"
  define EC where "EC = cumprod (map (\<lambda>x. x + 1) E)"
  have fitted: "fitted = self\<lparr>returns_attr := Some R, cumulative_returns_attr := Some C,
                             etf_returns_attr := Some E,
                             etf_cumulative_returns_attr := Some EC\<rparr>"
  proof -
    have "fit self = (if list_ex (list_ex (\<lambda>p. p = 0)) (butlast rws) then Inl NotFinite
            else Inr (self\<lparr>returns_attr := Some R, cumulative_returns_attr := Some C,
                           etf_returns_attr := Some E,
                           etf_cumulative_returns_attr := Some EC\<rparr>))"
      unfolding fit_def Let_def R_def C_def E_def EC_def rws_def
      by (simp only: if_cancel)
    with assms(3) show ?thesis
      by (simp split: if_splits)
  qed
  have labels: "prices_type_attr fitted = TyDataFrame
           \<longrightarrow> prices_index_attr fitted \<noteq> None \<and> columns_names_attr fitted \<noteq> None"
    using ETFTrick_init_labels [OF assms(1)] by (simp add: fitted)
  obtain rt where rt: "returns fitted = Inr rt" "table_values rt = R"
    using as_table_values [OF labels, of R] by (auto simp: returns_def fitted)
  obtain ct where ct: "cumulative_returns fitted = Inr ct" "table_values ct = C"
    using as_table_values [OF labels, of C] by (auto simp: cumulative_returns_def fitted)
  obtain es where es: "etf_returns fitted = Inr es" "series_values es = E"
    using as_series_values [OF labels, of E] by (auto simp: etf_returns_def fitted)
  obtain ecs where ecs: "etf_cumulative_returns fitted = Inr ecs" "series_values ecs = EC"
    using as_series_values [OF labels, of EC] by (auto simp: etf_cumulative_returns_def fitted)
  have lR: "length R = length rws - 1"
    by (simp add: R_def)
  have lC: "length C = length R"
    by (simp add: C_def length_cumprod_axis0)
  have lE: "length E = length R"
    by (simp add: E_def)
  have lEC: "length EC = length R"
    by (simp add: EC_def length_cumprod lE)
  have rect: "list_all (\<lambda>r. length r = ncols (prices_attr self)) rws"
    using assms(2) by (simp add: rectangular_def rws_def)
  have cum: "C ! (t - 1) ! n = (\<Prod>k = 1..t. 1 + R ! (k - 1) ! n)"
    if "1 \<le> t" and "t \<le> length R" and "n < ncols (prices_attr self)" for t n
  proof -
    from that have j: "t - 1 < length (map (map (\<lambda>x. x + 1)) R)" by simp
    have wide: "list_all (\<lambda>r. n < length r) (map (map (\<lambda>x. x + 1)) R)"
      unfolding list_all_length
    proof (intro allI impI)
      fix k assume "k < length (map (map (\<lambda>x. x + 1)) R)"
      then have k: "k < length rws - 1" by (simp add: lR)
      from returns_rows [OF rect k that(3)] k
      show "n < length (map (map (\<lambda>x. x + 1)) R ! k)"
        by (simp add: R_def)
    qed
    have "C ! (t - 1) ! n = (\<Prod>k\<le>t - 1. map (map (\<lambda>x. x + 1)) R ! k ! n)"
      unfolding C_def by (rule cumprod_axis0_nth [OF j wide])
    also have "\<dots> = (\<Prod>k\<le>t - 1. 1 + R ! k ! n)"
    proof (rule prod.cong)
      fix k assume "k \<in> {..t - 1}"
      with that have k: "k < length R" by simp
      then have "k < length rws - 1" by (simp add: lR)
      from returns_rows [OF rect this that(3)] have "n < length (R ! k)"
        by (simp add: R_def)
      with k show "map (map (\<lambda>x. x + 1)) R ! k ! n = 1 + R ! k ! n" by simp
    qed simp
    also have "\<dots> = (\<Prod>k = 1..t. 1 + R ! (k - 1) ! n)"
      using that(1) by (rule prod_shift_one)
    finally show ?thesis .
  qed
  have ecum: "EC ! (t - 1) = (\<Prod>k = 1..t. 1 + E ! (k - 1))"
    if "1 \<le> t" and "t \<le> length R" for t
  proof -
    from that have j: "t - 1 < length (map (\<lambda>x. x + 1) E)" by (simp add: lE)
    have "EC ! (t - 1) = (\<Prod>k\<le>t - 1. map (\<lambda>x. x + 1) E ! k)"
      unfolding EC_def by (rule cumprod_nth [OF j])
    also have "\<dots> = (\<Prod>k\<le>t - 1. 1 + E ! k)"
    proof (rule prod.cong)
      fix k assume "k \<in> {..t - 1}"
      with that have "k < length E" by (simp add: lE)
      then show "map (\<lambda>x. x + 1) E ! k = 1 + E ! k" by simp
    qed simp
    also have "\<dots> = (\<Prod>k = 1..t. 1 + E ! (k - 1))"
      using that(1) by (rule prod_shift_one)
    finally show ?thesis .
  qed
  show ?thesis
    using rt ct es ecs lR lC lE lEC cum ecum
    by (intro exI [of _ rt] exI [of _ ct] exI [of _ es] exI [of _ ecs]) (simp add: rws_def)
qed

lemma fit_example_init:
  "ETFTrick_init (PricesNdarray \<lparr>ncols = 2, rows = [[1, 2], [2, 3], [4, 6]]\<rparr>
                    :: (nat, nat) prices_arg) (WeightsNdarray [1/2, 1/2]) True
     = Inr (\<lparr>prices_type_attr = TyNdarray,
              prices_attr = \<lparr>ncols = 2, rows = [[1, 2], [2, 3], [4, 6]]\<rparr>,
              columns_names_attr = None, prices_index_attr = None,
              weights_attr = [1/2, 1/2], returns_attr = None,
              cumulative_returns_attr = None, etf_returns_attr = None,
              etf_cumulative_returns_attr = None\<rparr>, [])"
  by (simp add: ETFTrick_init_def isclose_def)

lemma fit_example:
  "fit (\<lparr>prices_type_attr = TyNdarray,
          prices_attr = \<lparr>ncols = 2, rows = [[1, 2], [2, 3], [4, 6]]\<rparr>,
          columns_names_attr = None, prices_index_attr = None,
          weights_attr = [1/2, 1/2], returns_attr = None,
          cumulative_returns_attr = None, etf_returns_attr = None,
          etf_cumulative_returns_attr = None\<rparr> :: (nat, nat) ETFTrick)
     = Inr \<lparr>prices_type_attr = TyNdarray,
            prices_attr = \<lparr>ncols = 2, rows = [[1, 2], [2, 3], [4, 6]]\<rparr>,
            columns_names_attr = None, prices_index_attr = None,
            weights_attr = [1/2, 1/2], returns_attr = Some [[1, 1/2], [1, 1]],
            cumulative_returns_attr = Some [[2, 3/2], [4, 3]],
            etf_returns_attr = Some [3/4, 1],
            etf_cumulative_returns_attr = Some [7/4, 7/2]\<rparr>"
  by (simp add: fit_def cumprod_def cumprod_axis0_def)

theorem fit_cumulative_products_witness:
  "rectangular \<lparr>ncols = 2, rows = [[1, 2], [2, 3], [4, 6]]\<rparr>
   \<and> cumulative_returns (\<lparr>prices_type_attr = TyNdarray,
            prices_attr = \<lparr>ncols = 2, rows = [[1, 2], [2, 3], [4, 6]]\<rparr>,
            columns_names_attr = None, prices_index_attr = None,
            weights_attr = [1/2, 1/2], returns_attr = Some [[1, 1/2], [1, 1]],
            cumulative_returns_attr = Some [[2, 3/2], [4, 3]],
            etf_returns_attr = Some [3/4, 1],
            etf_cumulative_returns_attr = Some [7/4, 7/2]\<rparr> :: (nat, nat) ETFTrick)
       = Inr (TableNdarray [[2, 3/2], [4, 3]])
   \<and> [[2, 3/2], [4, 3]] ! (2 - 1) ! 0 = (\<Prod>k = 1..2. 1 + [[1, 1/2], [1, 1 :: real]] ! (k - 1) ! 0)
   \<and> [7/4, 7/2] ! (2 - 1) = (\<Prod>k = 1..2. 1 + [3/4, 1 :: real] ! (k - 1))"
proof -
  let ?F = "\<lparr>prices_type_attr = TyNdarray,
            prices_attr = \<lparr>ncols = 2, rows = [[1, 2], [2, 3], [4, 6]]\<rparr>,
            columns_names_attr = None, prices_index_attr = None,
            weights_attr = [1/2, 1/2], returns_attr = Some [[1, 1/2], [1, 1]],
            cumulative_returns_attr = Some [[2, 3/2], [4, 3]],
            etf_returns_attr = Some [3/4, 1],
            etf_cumulative_returns_attr = Some [7/4, 7/2]\<rparr> :: (nat, nat) ETFTrick"
  have rect: "rectangular \<lparr>ncols = 2, rows = [[1, 2], [2, 3], [4, 6]]\<rparr>"
    by (simp add: rectangular_def)
  then have rect': "rectangular (prices_attr (\<lparr>prices_type_attr = TyNdarray,
              prices_attr = \<lparr>ncols = 2, rows = [[1, 2], [2, 3], [4, 6]]\<rparr>,
              columns_names_attr = None, prices_index_attr = None,
              weights_attr = [1/2, 1/2], returns_attr = None,
              cumulative_returns_attr = None, etf_returns_attr = None,
              etf_cumulative_returns_attr = None\<rparr> :: (nat, nat) ETFTrick))"
    by simp
  have acc: "returns ?F = Inr (TableNdarray [[1, 1/2], [1, 1]])"
    "cumulative_returns ?F = Inr (TableNdarray [[2, 3/2], [4, 3]])"
    "etf_returns ?F = Inr (SeriesNdarray [3/4, 1])"
    "etf_cumulative_returns ?F = Inr (SeriesNdarray [7/4, 7/2])"
    by (simp_all add: returns_def cumulative_returns_def etf_returns_def
          etf_cumulative_returns_def as_table_def as_series_def)
  from fit_cumulative_products [OF fit_example_init rect' fit_example]
  obtain rt ct es ecs where
    "returns ?F = Inr rt" and "cumulative_returns ?F = Inr ct"
    and "etf_returns ?F = Inr es" and "etf_cumulative_returns ?F = Inr ecs"
    and c: "\<forall>t n. 1 \<le> t \<and> t \<le> length (table_values rt) \<and> n < 2
               \<longrightarrow> table_values ct ! (t - 1) ! n
                     = (\<Prod>k = 1..t. 1 + table_values rt ! (k - 1) ! n)"
    and e: "\<forall>t. 1 \<le> t \<and> t \<le> length (table_values rt)
               \<longrightarrow> series_values ecs ! (t - 1)
                     = (\<Prod>k = 1..t. 1 + series_values es ! (k - 1))"
    by auto
  with acc have v: "table_values rt = [[1, 1/2], [1, 1]]" "table_values ct = [[2, 3/2], [4, 3]]"
    "series_values es = [3/4, 1]" "series_values ecs = [7/4, 7/2]"
    by auto
  have "[[2, 3/2], [4, 3]] ! (2 - 1) ! 0 = (\<Prod>k = 1..2. 1 + [[1, 1/2], [1, 1 :: real]] ! (k - 1) ! 0)"
    using c [rule_format, of 2 0] unfolding v by simp
  moreover have "[7/4, 7/2] ! (2 - 1) = (\<Prod>k = 1..2. 1 + [3/4, 1 :: real] ! (k - 1))"
    using e [rule_format, of 2] unfolding v by simp
  ultimately show ?thesis
    using rect acc(2) by blast
qed

end
